theory Spec2Isabelle
  imports Complex_Main
begin

section \<open>Numbers\<close>

text \<open>
  A \<open>number\<close> of the source is an IEEE 754 binary64 value. Where a claim depends on how
  such values round (the arithmetic of \<open>disect\<close>), they are modelled by \<^typ>\<open>num\<close>: a finite
  value is the real number it denotes, and every arithmetic operation is the exact operation
  followed by rounding to the nearest representable value, ties to even. The two zeros are
  identified (a division by zero takes the zero to be positive). Elsewhere (clock readings,
  delays, the unit conversions of the timers) a \<open>number\<close> is the \<^typ>\<open>real\<close> it denotes.
\<close>

datatype num = Fin real | PInf | NInf | NaN

text \<open>The number of binary digits of a natural number.\<close>

fun bits :: "nat \<Rightarrow> nat" where
  "bits n = (if n = 0 then 0 else Suc (bits (n div 2)))"

declare bits.simps [simp del]

text \<open>
  For \<open>x > 0\<close>, the exponent \<open>e\<close> with \<open>2 ^ e \<le> x < 2 ^ (e + 1)\<close>; \<open>pow2 e\<close> is \<open>2 ^ e\<close> for
  an integer \<open>e\<close>.
\<close>

definition expo :: "real \<Rightarrow> int" where
  "expo x =
     (if 1 \<le> x then int (bits (nat \<lfloor>x\<rfloor>)) - 1 else - int (bits (nat (\<lceil>1 / x\<rceil> - 1))))"

definition pow2 :: "int \<Rightarrow> real" where
  "pow2 e = (if 0 \<le> e then 2 ^ nat e else 1 / 2 ^ nat (- e))"

text \<open>Rounding to the nearest integer, a tie going to the even one.\<close>

definition rne :: "real \<Rightarrow> int" where
  "rne v =
     (let n = \<lfloor>v\<rfloor>; f = v - of_int n in
      if f < 1 / 2 then n else if 1 / 2 < f then n + 1 else if even n then n else n + 1)"

text \<open>
  Rounding a real number to binary64: 53 significant bits, the spacing of the subnormal
  range (\<open>2 ^ -1074\<close>) below \<open>2 ^ -1022\<close>, and an infinity from \<open>2 ^ 1024\<close> on.
\<close>

definition rd :: "real \<Rightarrow> num" where
  "rd x =
     (if x = 0 then Fin 0
      else
        let e = max (expo \<bar>x\<bar>) (- 1022);
            q = pow2 (e - 52);
            y = of_int (rne (x / q)) * q
        in if 2 ^ 1024 \<le> y then PInf else if y \<le> - (2 ^ 1024) then NInf else Fin y)"

text \<open>Whether a number is negative (NaN is not), and whether it is an infinity.\<close>

fun isNeg :: "num \<Rightarrow> bool" where
  "isNeg (Fin x) = (x < 0)"
| "isNeg PInf = False"
| "isNeg NInf = True"
| "isNeg NaN = False"

fun isInf :: "num \<Rightarrow> bool" where
  "isInf PInf = True"
| "isInf NInf = True"
| "isInf (Fin x) = False"
| "isInf NaN = False"

text \<open>\<open>a + b\<close>, \<open>-a\<close>, \<open>a - b\<close>, \<open>a * b\<close>, \<open>a / b\<close>, \<open>math.floor(a)\<close> and \<open>a < b\<close>.\<close>

definition fadd :: "num \<Rightarrow> num \<Rightarrow> num" where
  "fadd a b =
     (case (a, b) of
        (Fin x, Fin y) \<Rightarrow> rd (x + y)
      | _ \<Rightarrow>
          if a = NaN \<or> b = NaN then NaN
          else if isInf a \<and> isInf b \<and> a \<noteq> b then NaN
          else if isInf a then a
          else b)"

fun fneg :: "num \<Rightarrow> num" where
  "fneg (Fin x) = Fin (- x)"
| "fneg PInf = NInf"
| "fneg NInf = PInf"
| "fneg NaN = NaN"

definition fsub :: "num \<Rightarrow> num \<Rightarrow> num" where
  "fsub a b = fadd a (fneg b)"

definition fmul :: "num \<Rightarrow> num \<Rightarrow> num" where
  "fmul a b =
     (case (a, b) of
        (Fin x, Fin y) \<Rightarrow> rd (x * y)
      | _ \<Rightarrow>
          if a = NaN \<or> b = NaN \<or> a = Fin 0 \<or> b = Fin 0 then NaN
          else if isNeg a = isNeg b then PInf
          else NInf)"

definition fdiv :: "num \<Rightarrow> num \<Rightarrow> num" where
  "fdiv a b =
     (case (a, b) of
        (Fin x, Fin y) \<Rightarrow>
          if y = 0 then (if x = 0 then NaN else if 0 < x then PInf else NInf)
          else rd (x / y)
      | _ \<Rightarrow>
          if a = NaN \<or> b = NaN then NaN
          else if isInf a \<and> isInf b then NaN
          else if isInf b then Fin 0
          else if isNeg a = isNeg b then PInf
          else NInf)"

fun ffloor :: "num \<Rightarrow> num" where
  "ffloor (Fin x) = Fin (of_int \<lfloor>x\<rfloor>)"
| "ffloor PInf = PInf"
| "ffloor NInf = NInf"
| "ffloor NaN = NaN"

definition fless :: "num \<Rightarrow> num \<Rightarrow> bool" where
  "fless a b =
     (case (a, b) of
        (Fin x, Fin y) \<Rightarrow> x < y
      | _ \<Rightarrow> a \<noteq> NaN \<and> b \<noteq> NaN \<and> a \<noteq> b \<and> (a = NInf \<or> b = PInf))"

section \<open>Time units (the file that defines \<open>Unit\<close>, \<open>sortUnits\<close>, \<open>convert\<close> and \<open>disect\<close>)\<close>

text \<open>
  A \<open>TimeUnit\<close> object: its identity \<open>oid\<close> and its three fields. Two values are the same
  object exactly when they are equal with the identity included, which is how
  \<open>===\<close> is modelled. The ten objects of the \<open>Unit\<close> table have the identities 0 to 9; an
  object made elsewhere has another one. \<open>seconds\<close> is the real number the number stands
  for (for a literal, the number written).
\<close>

record TimeUnit =
  oid :: nat
  seconds :: real
  name :: string
  symbol :: string

definition NANO :: TimeUnit where
  "NANO = \<lparr>oid = 0, seconds = 1 / 10 ^ 9, name = ''nanosecond'', symbol = ''ns''\<rparr>"


definition MILLI :: TimeUnit where
  "MILLI = \<lparr>oid = 2, seconds = 1 / 10 ^ 3, name = ''millisecond'', symbol = ''ms''\<rparr>"

definition SECOND :: TimeUnit where
  "SECOND = \<lparr>oid = 3, seconds = 1, name = ''second'', symbol = ''s''\<rparr>"

definition MINUTE :: TimeUnit where
  "MINUTE = \<lparr>oid = 4, seconds = 60, name = ''minute'', symbol = ''min''\<rparr>"

definition HOUR :: TimeUnit where
  "HOUR = \<lparr>oid = 5, seconds = 3600, name = ''hour'', symbol = ''h''\<rparr>"

definition DAY :: TimeUnit where
  "DAY = \<lparr>oid = 6, seconds = 86400, name = ''day'', symbol = ''d''\<rparr>"

definition WEEK :: TimeUnit where
  "WEEK = \<lparr>oid = 7, seconds = 604800, name = ''week'', symbol = ''wk''\<rparr>"

definition MONTH :: TimeUnit where
  "MONTH = \<lparr>oid = 8, seconds = 2592000, name = ''month'', symbol = ''mo''\<rparr>"

definition YEAR :: TimeUnit where
  "YEAR = \<lparr>oid = 9, seconds = 31536000, name = ''year'', symbol = ''yr''\<rparr>"

text \<open>The binary64 value \<open>unit.seconds\<close> holds.\<close>

definition secondsOf :: "TimeUnit \<Rightarrow> num" where
  "secondsOf u = rd (seconds u)"

datatype dir = Asc | Desc

text \<open>
  The comparator handed to \<open>units.sort\<close>: \<open>dir === 'asc' ? a < b : a > b\<close>, true when the
  first unit has to come before the second.
\<close>

definition before :: "dir \<Rightarrow> TimeUnit \<Rightarrow> TimeUnit \<Rightarrow> bool" where
  "before d x y =
     (case d of
        Asc \<Rightarrow> fless (secondsOf x) (secondsOf y)
      | Desc \<Rightarrow> fless (secondsOf y) (secondsOf x))"

text \<open>
  \<open>units.sort(cmp)\<close> is the host's sort under that comparator. It is modelled by an
  insertion sort; the host's sort is not stable, so the order this model gives to units of
  equal duration is one of the orders the host may produce.
\<close>

fun insertUnit :: "dir \<Rightarrow> TimeUnit \<Rightarrow> TimeUnit list \<Rightarrow> TimeUnit list" where
  "insertUnit d u [] = [u]"
| "insertUnit d u (v # vs) = (if before d u v then u # v # vs else v # insertUnit d u vs)"

definition sortUnits :: "TimeUnit list \<Rightarrow> dir \<Rightarrow> TimeUnit list" where
  "sortUnits units d = foldr (insertUnit d) units []"

text \<open>\<open>convert\<close>, as the timers and the throttle use it, on the reals the numbers denote.\<close>

definition convert :: "real \<Rightarrow> TimeUnit \<Rightarrow> TimeUnit \<Rightarrow> real" where
  "convert v from to = (v * seconds from) / seconds to"

record Entry =
  unit :: TimeUnit
  amount :: num

text \<open>
  The \<open>for (const unit of targetUnits)\<close> loop of \<open>disect\<close>, threading
  \<open>remainingSeconds\<close> and \<open>res\<close>.
\<close>

fun consume :: "num \<Rightarrow> TimeUnit list \<Rightarrow> Entry list \<Rightarrow> num \<times> Entry list" where
  "consume remainingSeconds [] res = (remainingSeconds, res)"
| "consume remainingSeconds (u # us) res =
     (let unitSeconds = secondsOf u;
          unitAmount = ffloor (fdiv remainingSeconds unitSeconds)
      in consume (fsub remainingSeconds (fmul unitAmount unitSeconds)) us
           (res @ [\<lparr>unit = u, amount = unitAmount\<rparr>]))"

text \<open>
  The tail of \<open>disect\<close>: \<open>res.find((v) => v.unit === Unit.SECOND)\<close> picks the first entry
  whose unit is the object \<open>Unit.SECOND\<close> and adds the remainder to its amount; without
  such an entry, an entry of \<open>Unit.SECOND\<close> holding the remainder is pushed.
\<close>

fun addRemaining :: "num \<Rightarrow> Entry list \<Rightarrow> Entry list" where
  "addRemaining r [] = [\<lparr>unit = SECOND, amount = r\<rparr>]"
| "addRemaining r (e # es) =
     (if unit e = SECOND then e\<lparr>amount := fadd (amount e) r\<rparr> # es
      else e # addRemaining r es)"

text \<open>\<open>disect(seconds, ...units)\<close>; the argument is the binary64 value nearest to \<open>secs\<close>.\<close>

definition disect :: "real \<Rightarrow> TimeUnit list \<Rightarrow> Entry list" where
  "disect secs units =
     (case consume (rd secs) (sortUnits units Desc) [] of
        (remainingSeconds, res) \<Rightarrow> addRemaining remainingSeconds res)"





section \<open>The clock helpers and the benchmark registry\<close>

text \<open>\<open>Time.diff(start, fin)\<close>; the clock readings themselves are inputs of the model.\<close>

definition diff :: "real \<Rightarrow> real \<Rightarrow> real" where
  "diff st fin = fin - st"

record BenchmarkResult =
  totalSeconds :: real
  runCount :: real
  opName :: "string option"

text \<open>
  \<open>runningBenchmarks\<close>, the module-level \<open>Map<string, number>\<close> of start timestamps.
  \<open>start\<close> and \<open>stop\<close> take the registry and the reading of \<open>Time.cpu()\<close> and return the
  outcome with the registry they leave behind; a \<open>throw\<close> is \<open>Inl\<close> of the thrown string.
\<close>

type_synonym registry = "string \<rightharpoonup> real"

definition start :: "string \<Rightarrow> real \<Rightarrow> registry \<Rightarrow> (string + unit) \<times> registry" where
  "start ident cpu runningBenchmarks =
     (if runningBenchmarks ident \<noteq> None
      then (Inl (''Benchmark with id('' @ ident @ '') already started.''), runningBenchmarks)
      else (Inr (), runningBenchmarks(ident \<mapsto> cpu)))"

definition stop :: "string \<Rightarrow> real \<Rightarrow> registry \<Rightarrow> (string + BenchmarkResult) \<times> registry" where
  "stop ident cpu runningBenchmarks =
     (case runningBenchmarks ident of
        None \<Rightarrow> (Inl (''Benchmark with id('' @ ident @ '') not started.''), runningBenchmarks)
      | Some st \<Rightarrow>
          (Inr \<lparr>totalSeconds = diff st cpu, runCount = 1, opName = Some ident\<rparr>,
           runningBenchmarks(ident := None)))"

section \<open>Throttle\<close>

record Throttle =
  timeoutSeconds :: real
  lastPass :: "real option"
  locked :: bool

definition Throttle_setTimeout :: "real \<Rightarrow> Throttle \<Rightarrow> Throttle" where
  "Throttle_setTimeout timeoutMs th = th\<lparr>timeoutSeconds := convert timeoutMs MILLI SECOND\<rparr>"

text \<open>The constructor: the field initialisers, then \<open>this.setTimeout(timeoutMs)\<close>.\<close>

definition new_Throttle :: "real \<Rightarrow> Throttle" where
  "new_Throttle timeoutMs =
     Throttle_setTimeout timeoutMs \<lparr>timeoutSeconds = 0, lastPass = None, locked = False\<rparr>"

definition Throttle_getTimeout :: "Throttle \<Rightarrow> real" where
  "Throttle_getTimeout th = convert (timeoutSeconds th) SECOND MINUTE"

text \<open>
  \<open>if (!this.lastPass) return 0\<close>: the negation of a \<open>number | undefined\<close> is true for
  \<open>undefined\<close> and for the number 0 (and for NaN, which \<^typ>\<open>real\<close> does not have). \<open>now\<close>
  is the reading of \<open>Time.now()\<close>.
\<close>

definition getRemainingTimeout :: "real \<Rightarrow> Throttle \<Rightarrow> real" where
  "getRemainingTimeout now th =
     (case lastPass th of
        None \<Rightarrow> 0
      | Some lp \<Rightarrow>
          if lp = 0 then 0
          else let diffSeconds = diff lp now in max 0 (timeoutSeconds th - diffSeconds))"

definition canPass :: "real \<Rightarrow> Throttle \<Rightarrow> bool" where
  "canPass now th =
     (if locked th then False else let remaining = getRemainingTimeout now th in remaining = 0)"

text \<open>\<open>tryPass\<close> returns its boolean and the throttle it leaves behind.\<close>

definition tryPass :: "real \<Rightarrow> Throttle \<Rightarrow> bool \<times> Throttle" where
  "tryPass now th =
     (if \<not> canPass now th then (False, th) else (True, th\<lparr>lastPass := Some now\<rparr>))"

definition getLastPass :: "Throttle \<Rightarrow> real option" where
  "getLastPass th = lastPass th"

definition resetLastPass :: "Throttle \<Rightarrow> Throttle" where
  "resetLastPass th = th\<lparr>lastPass := None\<rparr>"

definition lock :: "Throttle \<Rightarrow> Throttle" where
  "lock th = th\<lparr>locked := True\<rparr>"

definition unlock :: "Throttle \<Rightarrow> Throttle" where
  "unlock th = th\<lparr>locked := False\<rparr>"

definition setLocked :: "bool \<Rightarrow> Throttle \<Rightarrow> Throttle" where
  "setLocked b th = th\<lparr>locked := b\<rparr>"

definition isLocked :: "Throttle \<Rightarrow> bool" where
  "isLocked th = locked th"

section \<open>Timeouts and intervals\<close>

text \<open>The two module-level helpers, with the bodies the source gives them.\<close>

definition sToMs :: "real \<Rightarrow> real" where
  "sToMs ms = convert ms MILLI SECOND"

definition msToS :: "real \<Rightarrow> real" where
  "msToS s = convert s SECOND MILLI"

subsection \<open>\<open>setTimeout\<close>\<close>

text \<open>
  The closure of \<open>setTimeout\<close>: the constant \<open>timeout\<close> and the variables \<open>start\<close>,
  \<open>destroyed\<close>, \<open>executed\<close>. \<open>tm_wait\<close> is the state of the spawned task: \<open>Some x\<close> while
  it is suspended in \<open>task.wait(x)\<close>, \<open>None\<close> once the host has resumed it.
  \<open>task.spawn\<close> runs the task at once up to its first suspension, so \<open>setTimeout\<close> returns
  the handle with \<open>start\<close> recorded and the wait issued; \<open>now\<close> is the reading of
  \<open>Time.now()\<close>.
\<close>

record Timeout =
  tm_timeout :: real
  tm_start :: "real option"
  tm_destroyed :: bool
  tm_executed :: bool
  tm_wait :: "real option"

definition setTimeout :: "real \<Rightarrow> real \<Rightarrow> Timeout" where
  "setTimeout timeoutMs now =
     (let timeout = msToS timeoutMs in
      \<lparr>tm_timeout = timeout, tm_start = Some now, tm_destroyed = False, tm_executed = False,
       tm_wait = Some timeout\<rparr>)"

text \<open>
  The task after \<open>task.wait\<close> returns: \<open>start = undefined\<close>, then the \<open>destroyed\<close> test, then
  \<open>executed = true\<close>. The boolean tells whether \<open>cb(...args)\<close> is called.
\<close>

definition Timeout_resume :: "Timeout \<Rightarrow> Timeout \<times> bool" where
  "Timeout_resume t =
     (let t1 = t\<lparr>tm_wait := None, tm_start := None\<rparr> in
      if tm_destroyed t1 then (t1, False) else (t1\<lparr>tm_executed := True\<rparr>, True))"

definition Timeout_destroy :: "Timeout \<Rightarrow> Timeout" where
  "Timeout_destroy t = t\<lparr>tm_destroyed := True\<rparr>"

definition Timeout_hasExecuted :: "Timeout \<Rightarrow> bool" where
  "Timeout_hasExecuted t = tm_executed t"

definition Timeout_isDestroyed :: "Timeout \<Rightarrow> bool" where
  "Timeout_isDestroyed t = tm_destroyed t"

definition Timeout_getTimeout :: "Timeout \<Rightarrow> real" where
  "Timeout_getTimeout t = sToMs (tm_timeout t)"

definition Timeout_getRemaining :: "real \<Rightarrow> Timeout \<Rightarrow> real" where
  "Timeout_getRemaining now t =
     (case tm_start t of
        None \<Rightarrow> 0
      | Some st \<Rightarrow>
          if st = 0 then 0
          else let elapsed = diff st now; remaining = max 0 (tm_timeout t - elapsed)
               in msToS remaining)"

text \<open>
  The life of one timeout handle: the host resumes the task (\<open>TWake\<close>), or somebody calls
  \<open>destroy()\<close> (\<open>TDestroy\<close>). The callback is foreign code; all it can do to its own handle
  is call \<open>destroy()\<close>, and the flag of \<open>TWake\<close> tells whether it does. The state pairs the
  handle with the number of calls of the callback so far.
\<close>

datatype TimeoutEvent = TWake bool | TDestroy

fun Timeout_step :: "TimeoutEvent \<Rightarrow> Timeout \<times> nat \<Rightarrow> Timeout \<times> nat" where
  "Timeout_step TDestroy (t, calls) = (Timeout_destroy t, calls)"
| "Timeout_step (TWake cbDestroys) (t, calls) =
     (case tm_wait t of
        None \<Rightarrow> (t, calls)
      | Some x \<Rightarrow>
          (case Timeout_resume t of
             (t1, False) \<Rightarrow> (t1, calls)
           | (t1, True) \<Rightarrow> (if cbDestroys then Timeout_destroy t1 else t1, calls + 1)))"

definition Timeout_run :: "TimeoutEvent list \<Rightarrow> Timeout \<times> nat \<Rightarrow> Timeout \<times> nat" where
  "Timeout_run evs s = fold Timeout_step evs s"

fun isTWake :: "TimeoutEvent \<Rightarrow> bool" where
  "isTWake (TWake d) = True"
| "isTWake TDestroy = False"

subsection \<open>\<open>setInterval\<close>\<close>

text \<open>
  The closure of \<open>setInterval\<close>: the variables \<open>timeout\<close>, \<open>destroyed\<close> and \<open>latest\<close> (the
  pair of its fields \<open>timeout\<close> and \<open>start\<close>), and \<open>iv_wait\<close>, the state of the spawned task
  as for timeouts (\<open>None\<close> also once the loop has ended).
\<close>

record Interval =
  iv_timeout :: real
  iv_destroyed :: bool
  iv_latest :: "(real \<times> real) option"
  iv_wait :: "real option"

text \<open>
  From the loop test to the suspension: \<open>while (!destroyed) { latest = { timeout, start:
  Time.now() }; task.wait(timeout); ...\<close>. When \<open>destroyed\<close> is set the loop, and the task,
  end.
\<close>

definition Interval_cycle :: "real \<Rightarrow> Interval \<Rightarrow> Interval" where
  "Interval_cycle now iv =
     (if iv_destroyed iv then iv
      else iv\<lparr>iv_latest := Some (iv_timeout iv, now), iv_wait := Some (iv_timeout iv)\<rparr>)"

definition setInterval :: "real \<Rightarrow> real \<Rightarrow> Interval" where
  "setInterval timeoutMs now =
     Interval_cycle now
       \<lparr>iv_timeout = sToMs timeoutMs, iv_destroyed = False, iv_latest = None, iv_wait = None\<rparr>"

datatype HandleOp = Destroy | SetTimeout real

fun Interval_apply :: "HandleOp \<Rightarrow> Interval \<Rightarrow> Interval" where
  "Interval_apply Destroy iv = iv\<lparr>iv_destroyed := True\<rparr>"
| "Interval_apply (SetTimeout ms) iv = iv\<lparr>iv_timeout := sToMs ms\<rparr>"

definition Interval_getTimeout :: "Interval \<Rightarrow> real" where
  "Interval_getTimeout iv = msToS (iv_timeout iv)"

definition Interval_isDestroyed :: "Interval \<Rightarrow> bool" where
  "Interval_isDestroyed iv = iv_destroyed iv"

definition Interval_getRemaining :: "real \<Rightarrow> Interval \<Rightarrow> real" where
  "Interval_getRemaining now iv =
     (case iv_latest iv of
        None \<Rightarrow> 0
      | Some (timeout, st) \<Rightarrow>
          let elapsed = diff st now; remaining = max 0 (timeout - elapsed) in msToS remaining)"

text \<open>
  The task after \<open>task.wait\<close> returns: \<open>latest = undefined\<close>, the \<open>destroyed\<close> test, the call
  of the callback, and the next turn of the loop. \<open>ops\<close> are the operations the callback
  performs on its own handle while it runs, \<open>now\<close> the reading of \<open>Time.now()\<close> at the next
  turn. The state pairs the handle with the number of calls of the callback so far.
\<close>

definition Interval_resume :: "HandleOp list \<Rightarrow> real \<Rightarrow> Interval \<times> nat \<Rightarrow> Interval \<times> nat" where
  "Interval_resume ops now s =
     (case s of (iv, calls) \<Rightarrow>
        let iv1 = iv\<lparr>iv_wait := None, iv_latest := None\<rparr> in
        if iv_destroyed iv1 then (iv1, calls)
        else (Interval_cycle now (fold Interval_apply ops iv1), calls + 1))"

datatype IntervalEvent = IWake "HandleOp list" real | IOp HandleOp

fun Interval_step :: "IntervalEvent \<Rightarrow> Interval \<times> nat \<Rightarrow> Interval \<times> nat" where
  "Interval_step (IOp h) (iv, calls) = (Interval_apply h iv, calls)"
| "Interval_step (IWake ops now) (iv, calls) =
     (case iv_wait iv of
        None \<Rightarrow> (iv, calls)
      | Some x \<Rightarrow> Interval_resume ops now (iv, calls))"

definition Interval_run :: "IntervalEvent list \<Rightarrow> Interval \<times> nat \<Rightarrow> Interval \<times> nat" where
  "Interval_run evs s = fold Interval_step evs s"

fun isIWake :: "IntervalEvent \<Rightarrow> bool" where
  "isIWake (IWake ops now) = True"
| "isIWake (IOp h) = False"

section \<open>Debounce\<close>

text \<open>
  A \<open>Debounce\<close> holds its delay, the pending thunk \<open>scheduled\<close> and the handle
  \<open>scheduler\<close> of the timeout that will run it. The thunk \<open>() => task.spawn(() => void
  cb(...args))\<close> is represented by what it captured (of type \<^typ>\<open>'a\<close>); running it calls the
  callback at once, which is recorded with the time of the call. The handle is the address
  of a \<^typ>\<open>Timeout\<close> in the heap of all timeouts made so far, since the debounce and the
  spawned task share it.
\<close>

record 'a Debounce =
  timeoutMs :: real
  scheduled :: "'a option"
  scheduler :: "nat option"

text \<open>
  The world a debounce runs in: the time, the heap of timeout handles, the host's tasks
  suspended in \<open>task.wait\<close> (the time each is due and the address of its handle), the
  debounce, and the calls of the callback made so far.
\<close>

record 'a World =
  clock :: real
  heap :: "Timeout list"
  sleeping :: "(real \<times> nat) list"
  debounce :: "'a Debounce"
  invoked :: "(real \<times> 'a) list"

definition new_Debounce :: "real \<Rightarrow> 'a Debounce" where
  "new_Debounce ms = \<lparr>timeoutMs = ms, scheduled = None, scheduler = None\<rparr>"

definition new_World :: "real \<Rightarrow> real \<Rightarrow> 'a World" where
  "new_World ms t0 =
     \<lparr>clock = t0, heap = [], sleeping = [], debounce = new_Debounce ms, invoked = []\<rparr>"

text \<open>\<open>this.scheduler?.destroy()\<close>, on the heap.\<close>

fun destroyAt :: "nat option \<Rightarrow> Timeout list \<Rightarrow> Timeout list" where
  "destroyAt None h = h"
| "destroyAt (Some a) h = (if a < length h then h[a := Timeout_destroy (h ! a)] else h)"

definition Debounce_clear :: "'a World \<Rightarrow> 'a World" where
  "Debounce_clear w =
     w\<lparr>heap := destroyAt (scheduler (debounce w)) (heap w),
       debounce := (debounce w)\<lparr>scheduler := None, scheduled := None\<rparr>\<rparr>"

definition Debounce_flush :: "'a World \<Rightarrow> 'a World" where
  "Debounce_flush w =
     (case scheduled (debounce w) of
        None \<Rightarrow> w
      | Some thunk \<Rightarrow>
          Debounce_clear
            (w\<lparr>heap := destroyAt (scheduler (debounce w)) (heap w),
               invoked := invoked w @ [(clock w, thunk)]\<rparr>))"

text \<open>
  \<open>schedule\<close>: \<open>this.clear()\<close>, the new thunk, and \<open>setTimeout(() => this.flush(),
  this.timeoutMs)\<close>, whose task the host will resume \<open>timeout\<close> seconds from now.
\<close>

definition Debounce_schedule :: "'a \<Rightarrow> 'a World \<Rightarrow> 'a World" where
  "Debounce_schedule thunk w =
     (let w1 = Debounce_clear w;
          t = setTimeout (timeoutMs (debounce w1)) (clock w1);
          a = length (heap w1)
      in w1\<lparr>heap := heap w1 @ [t],
            sleeping := sleeping w1 @ [(clock w1 + tm_timeout t, a)],
            debounce := (debounce w1)\<lparr>scheduled := Some thunk, scheduler := Some a\<rparr>\<rparr>)"

definition Debounce_isScheduled :: "'a World \<Rightarrow> bool" where
  "Debounce_isScheduled w =
     (case scheduler (debounce w) of
        None \<Rightarrow> False
      | Some a \<Rightarrow> a < length (heap w) \<and> Timeout_hasExecuted (heap w ! a) = False)"

definition Debounce_getTimeout :: "'a World \<Rightarrow> real" where
  "Debounce_getTimeout w = timeoutMs (debounce w)"

definition Debounce_setTimeout :: "real \<Rightarrow> 'a World \<Rightarrow> 'a World" where
  "Debounce_setTimeout ms w = w\<lparr>debounce := (debounce w)\<lparr>timeoutMs := ms\<rparr>\<rparr>"

text \<open>
  The host resumes the task of the timeout at address \<open>a\<close>; its callback is
  \<open>() => this.flush()\<close>.
\<close>

definition wake :: "nat \<Rightarrow> 'a World \<Rightarrow> 'a World" where
  "wake a w =
     (if a < length (heap w) then
        (case Timeout_resume (heap w ! a) of
           (t1, run) \<Rightarrow>
             let w1 = w\<lparr>heap := (heap w)[a := t1]\<rparr> in
             if run then Debounce_flush w1 else w1)
      else w)"

text \<open>
  Time passes until \<open>T\<close>: the host resumes, in the order they are due, the tasks whose wait
  ends by then, each at the moment it is due (the host may resume a task later than that;
  the model takes the earliest moment).
\<close>

definition advance :: "real \<Rightarrow> 'a World \<Rightarrow> 'a World" where
  "advance T w =
     (let due = sort_key fst (filter (\<lambda>(d, a). d \<le> T) (sleeping w));
          w1 = w\<lparr>sleeping := filter (\<lambda>(d, a). \<not> d \<le> T) (sleeping w)\<rparr>;
          w2 = fold (\<lambda>(d, a) v. wake a (v\<lparr>clock := max (clock v) d\<rparr>)) due w1
      in w2\<lparr>clock := max (clock w2) T\<rparr>)"

text \<open>
  The scenario of two calls of \<open>schedule\<close> on a fresh debounce of delay \<open>d\<close> milliseconds:
  the first at time \<open>t1\<close>, the second at time \<open>t2\<close>, observed at time \<open>T\<close> (all in seconds).
\<close>

definition scheduleTwice :: "real \<Rightarrow> real \<Rightarrow> real \<Rightarrow> real \<Rightarrow> 'a \<Rightarrow> 'a \<Rightarrow> 'a World" where
  "scheduleTwice d t1 t2 T x y =
     advance T (Debounce_schedule y (advance t2 (Debounce_schedule x (new_World d t1))))"

section \<open>Invariant of a timeout's life\<close>

text \<open>
  What holds of every state a timeout handle reaches: the callback has been called once
  exactly when \<open>executed\<close> is set, never otherwise, and a task that has run the callback is
  no longer suspended.
\<close>

definition Timeout_inv :: "Timeout \<times> nat \<Rightarrow> bool" where
  "Timeout_inv s =
     (case s of (t, calls) \<Rightarrow>
        (tm_executed t \<longrightarrow> calls = 1 \<and> tm_wait t = None) \<and> (\<not> tm_executed t \<longrightarrow> calls = 0))"

section \<open>Theorems about the rounding of numbers\<close>

lemma bits_le: "n < 2 ^ k \<Longrightarrow> bits n \<le> k"
proof (induction n arbitrary: k rule: bits.induct)
  case (1 n)
  show ?case
  proof (cases "n = 0")
    case True
    then show ?thesis by (simp add: bits.simps)
  next
    case False
    with "1.prems" obtain j where k: "k = Suc j" by (cases k) auto
    with "1.prems" have "n div 2 < 2 ^ j" by auto
    from "1.IH" [OF False this] False k show ?thesis by (simp add: bits.simps [of n])
  qed
qed

text \<open>\<open>expo\<close> is the binary exponent: \<open>2 ^ expo x \<le> x < 2 ^ (expo x + 1)\<close>.\<close>

lemma bits_bounds: "0 < n \<Longrightarrow> 2 ^ (bits n - 1) \<le> n \<and> n < 2 ^ bits n"
proof (induction n rule: bits.induct)
  case (1 n)
  show ?case
  proof (cases "n div 2 = 0")
    case True
    with "1.prems" have "n = 1" by (simp add: div_eq_0_iff) 
    moreover have "bits (Suc 0) = Suc 0" by (simp add: bits.simps [of "Suc 0"] bits.simps [of 0])
    ultimately show ?thesis by simp
  next
    case False
    then have pos: "0 < n div 2" by simp
    from "1.prems" have n0: "n \<noteq> 0" by simp
    from "1.IH" [OF n0 pos] have lo: "2 ^ (bits (n div 2) - 1) \<le> n div 2"
      and hi: "n div 2 < 2 ^ bits (n div 2)" by simp_all
    have b: "bits n = Suc (bits (n div 2))" using n0 by (simp add: bits.simps [of n])
    have bp: "0 < bits (n div 2)" using False by (simp add: bits.simps [of "n div 2"])
    then obtain j where j: "bits (n div 2) = Suc j" by (cases "bits (n div 2)") auto
    from lo j have "2 * 2 ^ j \<le> 2 * (n div 2)" by simp
    also have "\<dots> \<le> n" by simp
    finally have l: "2 ^ (bits n - 1) \<le> n" using b j by simp
    from hi have "n div 2 + 1 \<le> 2 ^ bits (n div 2)" by simp
    then have "2 * (n div 2) + 2 \<le> 2 * 2 ^ bits (n div 2)" by simp
    moreover have "n < 2 * (n div 2) + 2" by linarith
    ultimately have "n < 2 ^ bits n" using b by simp
    with l show ?thesis by simp
  qed
qed

lemma expo_bounds:
  assumes "0 < x"
  shows "pow2 (expo x) \<le> x \<and> x < pow2 (expo x + 1)"
proof (cases "1 \<le> x")
  case True
  define n where "n = nat \<lfloor>x\<rfloor>"
  from True have n: "0 < n" "real n \<le> x" "x < real n + 1"
    by (simp_all add: n_def)
  from bits_bounds [OF n(1)] have lo: "2 ^ (bits n - 1) \<le> n" and hi: "n < 2 ^ bits n" by simp_all
  from n(1) have bp: "0 < bits n" by (simp add: bits.simps [of n])
  have e: "expo x = int (bits n) - 1" using True by (simp add: expo_def n_def)
  have p1: "pow2 (expo x) = 2 ^ (bits n - 1)"
    using bp by (simp add: e pow2_def nat_diff_distrib')
  have p2: "pow2 (expo x + 1) = 2 ^ bits n" by (simp add: e pow2_def)
  have "(2::real) ^ (bits n - 1) \<le> real n" using lo by (metis of_nat_le_iff of_nat_numeral of_nat_power)
  moreover have "real n + 1 \<le> 2 ^ bits n"
  proof -
    from hi have "n + 1 \<le> 2 ^ bits n" by simp
    then have "real (n + 1) \<le> real (2 ^ bits n)" by (simp only: of_nat_le_iff)
    then show ?thesis by simp
  qed
  ultimately show ?thesis using n p1 p2 by linarith
next
  case False
  define m where "m = nat (\<lceil>1 / x\<rceil> - 1)"
  from False assms have inv: "1 < 1 / x" by simp
  then have c2: "2 \<le> \<lceil>1 / x\<rceil>" by linarith
  then have m: "0 < m" "real m < 1 / x" "1 / x \<le> real m + 1"
    by (simp_all add: m_def) linarith+
  from bits_bounds [OF m(1)] have lo: "2 ^ (bits m - 1) \<le> m" and hi: "m < 2 ^ bits m" by simp_all
  from m(1) have bp: "0 < bits m" by (simp add: bits.simps [of m])
  have e: "expo x = - int (bits m)" using False by (simp add: expo_def m_def)
  have p1: "pow2 (expo x) = 1 / 2 ^ bits m" using bp by (simp add: e pow2_def)
  have p2: "pow2 (expo x + 1) = 1 / 2 ^ (bits m - 1)"
  proof (cases "bits m = 1")
    case True
    then show ?thesis by (simp add: e pow2_def)
  next
    case False
    with bp have "1 < bits m" by simp
    then have "nat (int (bits m) - 1) = bits m - 1" by simp
    with \<open>1 < bits m\<close> show ?thesis by (simp add: e pow2_def)
  qed
  have up: "1 / x \<le> 2 ^ bits m"
  proof -
    from hi have "m + 1 \<le> 2 ^ bits m" by simp
    then have "real (m + 1) \<le> real (2 ^ bits m)" by (simp only: of_nat_le_iff)
    with m(3) show ?thesis by simp
  qed
  have dn: "2 ^ (bits m - 1) < 1 / x"
  proof -
    have "(2::real) ^ (bits m - 1) \<le> real m" using lo by (metis of_nat_le_iff of_nat_numeral of_nat_power)
    with m(2) show ?thesis by linarith
  qed
  from up assms have "1 / 2 ^ bits m \<le> x" by (simp add: field_simps)
  moreover from dn assms have "x < 1 / 2 ^ (bits m - 1)" by (simp add: field_simps)
  ultimately show ?thesis by (simp add: p1 p2)
qed

lemma rne_lower: "of_int a \<le> v \<Longrightarrow> a \<le> rne v"
  by (auto simp: rne_def Let_def le_floor_iff intro: order_trans [of a "\<lfloor>v\<rfloor>"])

lemma rne_upper: "v \<le> of_int b \<Longrightarrow> rne v \<le> b"
proof -
  assume le: "v \<le> of_int b"
  have fl: "\<lfloor>v\<rfloor> \<le> b" using le by (simp add: floor_le_iff) 
  show ?thesis
  proof (cases "v = of_int \<lfloor>v\<rfloor>")
    case True
    then have "v - of_int \<lfloor>v\<rfloor> = 0" by simp
    then show ?thesis using fl by (simp add: rne_def Let_def)
  next
    case False
    then have "of_int \<lfloor>v\<rfloor> < v" using of_int_floor_le [of v] by linarith
    with le have "(of_int \<lfloor>v\<rfloor> :: real) < of_int b" by linarith
    then have "\<lfloor>v\<rfloor> < b" by simp
    then show ?thesis by (auto simp: rne_def Let_def)
  qed
qed

lemma expo_le_52:
  assumes "0 < x" "x < 2 ^ 53"
  shows "expo x \<le> 52"
proof (cases "1 \<le> x")
  case True
  have "x < of_int (2 ^ 53)" using assms(2) by simp
  then have "\<lfloor>x\<rfloor> < 2 ^ 53" by (simp only: floor_less_iff)
  moreover have "0 \<le> \<lfloor>x\<rfloor>" using True by simp
  ultimately have "nat \<lfloor>x\<rfloor> < nat (2 ^ 53)" by (simp only: nat_less_eq_zless)
  then have "nat \<lfloor>x\<rfloor> < 2 ^ 53" by simp
  from bits_le [OF this] True show ?thesis by (simp add: expo_def)
next
  case False
  then show ?thesis by (simp add: expo_def)
qed

lemma rd_between:
  assumes "\<bar>x\<bar> < 2 ^ 53"
  shows "\<exists>y. rd x = Fin y \<and> of_int \<lfloor>x\<rfloor> \<le> y \<and> y \<le> of_int \<lceil>x\<rceil>"
proof (cases "x = 0")
  case True
  then show ?thesis by (simp add: rd_def)
next
  case False
  define e where "e = max (expo \<bar>x\<bar>) (- 1022)"
  define k where "k = nat (52 - e)"
  define m where "m = rne (x * 2 ^ k)"
  from False assms have "expo \<bar>x\<bar> \<le> 52" by (intro expo_le_52) auto
  then have e52: "e \<le> 52" by (simp add: e_def)
  have q: "pow2 (e - 52) = 1 / 2 ^ k"
    using e52 by (cases "e = 52") (auto simp: pow2_def k_def)
  have xq: "x / pow2 (e - 52) = x * 2 ^ k" by (simp add: q)
  have lo: "of_int (\<lfloor>x\<rfloor> * 2 ^ k) \<le> x * 2 ^ k"
    by (simp add: mult_right_mono)
  have hi: "x * 2 ^ k \<le> of_int (\<lceil>x\<rceil> * 2 ^ k)"
    by (simp add: mult_right_mono)
  from rne_lower [OF lo] have mlo: "\<lfloor>x\<rfloor> * 2 ^ k \<le> m" by (simp add: m_def)
  from rne_upper [OF hi] have mhi: "m \<le> \<lceil>x\<rceil> * 2 ^ k" by (simp add: m_def)
  define y where "y = of_int m / (2 ^ k :: real)"
  have ylo: "of_int \<lfloor>x\<rfloor> \<le> y"
  proof -
    have "(of_int (\<lfloor>x\<rfloor> * 2 ^ k) :: real) \<le> of_int m" using mlo by (simp only: of_int_le_iff)
    then show ?thesis by (simp add: y_def field_simps)
  qed
  have yhi: "y \<le> of_int \<lceil>x\<rceil>"
  proof -
    have "(of_int m :: real) \<le> of_int (\<lceil>x\<rceil> * 2 ^ k)" using mhi by (simp only: of_int_le_iff)
    then show ?thesis by (simp add: y_def field_simps)
  qed
  have "- (2 ^ 53) \<le> (of_int \<lfloor>x\<rfloor> :: real)"
  proof -
    have "of_int (- (2 ^ 53)) \<le> x" using assms by simp
    then have "- (2 ^ 53) \<le> \<lfloor>x\<rfloor>" by (simp only: le_floor_iff)
    then have "(of_int (- (2 ^ 53)) :: real) \<le> of_int \<lfloor>x\<rfloor>" by (simp only: of_int_le_iff)
    then show ?thesis by simp
  qed
  moreover have "(of_int \<lceil>x\<rceil> :: real) \<le> 2 ^ 53"
  proof -
    have "x \<le> of_int (2 ^ 53)" using assms by simp
    then have "\<lceil>x\<rceil> \<le> 2 ^ 53" by (simp only: ceiling_le_iff)
    then have "(of_int \<lceil>x\<rceil> :: real) \<le> of_int (2 ^ 53)" by (simp only: of_int_le_iff)
    then show ?thesis by simp
  qed
  ultimately have ysmall: "\<bar>y\<bar> \<le> 2 ^ 53" using ylo yhi by linarith
  have "(2::real) ^ 53 < 2 ^ 1024" by simp
  with ysmall have ok: "\<not> 2 ^ 1024 \<le> y" "\<not> y \<le> - (2 ^ 1024)" by linarith+
  have yq: "of_int (rne (x / pow2 (e - 52))) * pow2 (e - 52) = y"
    by (simp add: xq q m_def y_def)
  have "rd x = (if 2 ^ 1024 \<le> y then PInf else if y \<le> - (2 ^ 1024) then NInf else Fin y)"
    using False by (simp only: rd_def Let_def e_def [symmetric] yq if_False)
  with ok have "rd x = Fin y" by (simp only: if_False)
  with ylo yhi show ?thesis by blast
qed

lemma rd_int: "\<bar>n\<bar> < 2 ^ 53 \<Longrightarrow> rd (of_int n) = Fin (of_int n)"
proof -
  assume "\<bar>n\<bar> < 2 ^ 53"
  then have "\<bar>of_int n :: real\<bar> < 2 ^ 53"
    by (metis of_int_abs of_int_less_numeral_power_cancel_iff)
  from rd_between [OF this] show ?thesis by auto
qed

lemma rd_numeral [simp]: "(numeral w :: int) < 2 ^ 53 \<Longrightarrow> rd (numeral w) = Fin (numeral w)"
  using rd_int [of "numeral w"] by simp

lemma rd_one [simp]: "rd 1 = Fin 1"
  using rd_int [of 1] by simp

lemma rd_zero [simp]: "rd 0 = Fin 0"
  by (simp add: rd_def)




lemma fadd_Fin: "fadd (Fin x) (Fin y) = rd (x + y)"
  by (simp add: fadd_def)

lemma fsub_Fin: "fsub (Fin x) (Fin y) = rd (x - y)"
  by (simp add: fsub_def fadd_def)

lemma fmul_Fin: "fmul (Fin x) (Fin y) = rd (x * y)"
  by (simp add: fmul_def)

lemma fdiv_Fin: "y \<noteq> 0 \<Longrightarrow> fdiv (Fin x) (Fin y) = rd (x / y)"
  by (simp add: fdiv_def)

lemma fless_Fin: "fless (Fin x) (Fin y) = (x < y)"
  by (simp add: fless_def)

lemmas num_ops = fadd_Fin fsub_Fin fmul_Fin fdiv_Fin fless_Fin

lemmas rd_eval = rd_def expo_def pow2_def rne_def bits.simps Let_def

section \<open>Theorems about \<open>disect\<close>\<close>









text \<open>
  The values the examples below go through: each is the rounding the host's arithmetic
  performs at that step.
\<close>

lemma rd_25_12: "rd (25 / 12) = Fin (4691249611844267 / 2251799813685248)"
  by (simp add: rd_eval)

lemma rd_0282:
  "rd (141 / 500) = Fin (5080060379673919 / 18014398509481984)"
  "rd (1 / 1000) = Fin (1152921504606847 / 1152921504606846976)"
  "rd (1 / 1000000) = Fin (4722366482869645 / 4722366482869645213696)"
  "rd (325123864299130816 / 1152921504606847) = Fin (4960996464525311 / 17592186044416)"
  "rd (323970942794524007 / 1152921504606846976) = Fin (2531022990582219 / 9007199254740992)"
  "rd (18014398509481 / 18014398509481984) = Fin (18014398509481 / 18014398509481984)"
  "rd (4722366482869387264 / 4722366482869645) = Fin (274877906943985 / 274877906944)"
  "rd (4717644116386775355 / 4722366482869645213696) = Fin (35992768221945 / 36028797018963968)"
  "rd (36028797017 / 36028797018963968) = Fin (36028797017 / 36028797018963968)"
  "rd (2531022990582219 / 9007199254740992) = Fin (2531022990582219 / 9007199254740992)"
  "rd (10160084730550821 / 36028797018963968) = Fin (2540021182637705 / 9007199254740992)"
  "rd (10160120759347837 / 36028797018963968) = Fin (2540030189836959 / 9007199254740992)"
  by (simp_all add: rd_eval)


lemma rd_7384_0625:
  "rd (118145 / 16) = Fin (118145 / 16)"
  "rd (23629 / 11520) = Fin (4618730711594507 / 2251799813685248)"
  "rd (2945 / 16) = Fin (2945 / 16)"
  "rd (589 / 192) = Fin (6907865053440683 / 2251799813685248)"
  "rd (65 / 16) = Fin (65 / 16)"
  "rd (4683743612465315840 / 1152921504606847) = Fin (8125 / 2)"
  "rd (2341583575856506257 / 576460752303423488) = Fin (4573405421594739 / 1125899906842624)"
  "rd (562949953421 / 1125899906842624) = Fin (562949953421 / 1125899906842624)"
  by (simp_all add: rd_eval)


lemma disect_7384_0625:
  "disect 7384.0625 [HOUR, MILLI, MINUTE] =
     [\<lparr>unit = HOUR, amount = Fin 2\<rparr>, \<lparr>unit = MINUTE, amount = Fin 3\<rparr>,
      \<lparr>unit = MILLI, amount = Fin 4062\<rparr>,
      \<lparr>unit = SECOND, amount = Fin (562949953421 / 1125899906842624)\<rparr>]"
  by (simp add: disect_def sortUnits_def before_def secondsOf_def num_ops rd_7384_0625 rd_0282
      HOUR_def MINUTE_def MILLI_def SECOND_def)

lemma disect_zero_second_unit:
  "disect 5 [\<lparr>oid = 10, seconds = 0, name = ''none'', symbol = ''n''\<rparr>] =
     [\<lparr>unit = \<lparr>oid = 10, seconds = 0, name = ''none'', symbol = ''n''\<rparr>, amount = PInf\<rparr>,
      \<lparr>unit = SECOND, amount = NaN\<rparr>]"
  by (simp add: disect_def sortUnits_def secondsOf_def fdiv_def fmul_def fsub_def fadd_def
      SECOND_def)

lemma disect_lookalike_second:
  "disect 5 [\<lparr>oid = 10, seconds = 1, name = ''second'', symbol = ''s''\<rparr>] =
     [\<lparr>unit = \<lparr>oid = 10, seconds = 1, name = ''second'', symbol = ''s''\<rparr>, amount = Fin 5\<rparr>,
      \<lparr>unit = SECOND, amount = Fin 0\<rparr>]"
  by (simp add: disect_def sortUnits_def secondsOf_def num_ops SECOND_def)

text \<open>
  C8: \<open>disect(125, SECOND, MINUTE)\<close> returns the two entries \<open>{MINUTE, 2}\<close>, \<open>{SECOND, 5}\<close>,
  in this order.
\<close>

theorem disect_125_second_minute:
  "disect 125 [SECOND, MINUTE] =
     [\<lparr>unit = MINUTE, amount = Fin 2\<rparr>, \<lparr>unit = SECOND, amount = Fin 5\<rparr>]"
  by (simp add: disect_def sortUnits_def before_def secondsOf_def num_ops rd_25_12 SECOND_def
      MINUTE_def)




section \<open>Theorems about the benchmark registry\<close>

text \<open>
  C9: \<open>start(id)\<close> on an id that is running throws at once, \<open>stop(id)\<close> on an id that is
  not running throws at once, and in both cases the registry is left as it was.
\<close>

theorem benchmark_errors_leave_registry:
  "(reg ident \<noteq> None \<longrightarrow>
      start ident cpu reg = (Inl (''Benchmark with id('' @ ident @ '') already started.''), reg)) \<and>
   (reg ident = None \<longrightarrow>
      stop ident cpu reg = (Inl (''Benchmark with id('' @ ident @ '') not started.''), reg))"
  by (auto simp: start_def stop_def)

theorem benchmark_errors_leave_registry_witness:
  "start ''a'' 2 [''a'' \<mapsto> 1] = (Inl ''Benchmark with id(a) already started.'', [''a'' \<mapsto> 1]) \<and>
   stop ''b'' 2 [''a'' \<mapsto> 1] = (Inl ''Benchmark with id(b) not started.'', [''a'' \<mapsto> 1])"
  using benchmark_errors_leave_registry [of "[''a'' \<mapsto> 1]" "''a''" 2]
    benchmark_errors_leave_registry [of "[''a'' \<mapsto> 1]" "''b''" 2]
  by simp

section \<open>Theorems about \<open>Throttle\<close>\<close>

lemma Throttle_getTimeout_setTimeout:
  "Throttle_getTimeout (Throttle_setTimeout w th) = w / 60000"
  by (simp add: Throttle_getTimeout_def Throttle_setTimeout_def convert_def MILLI_def SECOND_def
      MINUTE_def)

text \<open>
  C2: the window does not come back in milliseconds. \<open>setTimeout\<close> stores it in seconds and
  \<open>getTimeout\<close> converts the seconds to minutes: a throttle set to 60000 ms reports 1.
\<close>

theorem Throttle_getTimeout_60000:
  "Throttle_getTimeout (Throttle_setTimeout 60000 (new_Throttle 0)) = 1"
  by (simp add: Throttle_getTimeout_def Throttle_setTimeout_def convert_def MILLI_def SECOND_def
      MINUTE_def)

lemma tryPass_any_state:
  "fst (tryPass now th) \<longleftrightarrow>
     \<not> locked th \<and>
     (case lastPass th of None \<Rightarrow> True | Some lp \<Rightarrow> lp = 0 \<or> now - lp \<ge> timeoutSeconds th)"
  by (auto simp: tryPass_def canPass_def getRemainingTimeout_def diff_def Let_def
      split: option.splits)

text \<open>
  The states a throttle reaches under a clock that never reads 0 never hold the timestamp 0
  as their last pass.
\<close>

lemma lastPass_never_zero:
  "lastPass (new_Throttle ms) \<noteq> Some 0"
  "lastPass th \<noteq> Some 0 \<Longrightarrow> now \<noteq> 0 \<Longrightarrow> lastPass (snd (tryPass now th)) \<noteq> Some 0"
  "lastPass th \<noteq> Some 0 \<Longrightarrow> lastPass (lock th) \<noteq> Some 0"
  "lastPass th \<noteq> Some 0 \<Longrightarrow> lastPass (unlock th) \<noteq> Some 0"
  "lastPass th \<noteq> Some 0 \<Longrightarrow> lastPass (setLocked b th) \<noteq> Some 0"
  "lastPass (resetLastPass th) \<noteq> Some 0"
  "lastPass th \<noteq> Some 0 \<Longrightarrow> lastPass (Throttle_setTimeout ms th) \<noteq> Some 0"
  by (simp_all add: new_Throttle_def tryPass_def lock_def unlock_def setLocked_def
      resetLastPass_def Throttle_setTimeout_def)



section \<open>Theorems about \<open>setTimeout\<close>\<close>

lemma setTimeout_fields:
  "setTimeout delayMs now =
     \<lparr>tm_timeout = delayMs * 1000, tm_start = Some now, tm_destroyed = False,
      tm_executed = False, tm_wait = Some (delayMs * 1000)\<rparr>"
  by (simp add: setTimeout_def msToS_def convert_def SECOND_def MILLI_def Let_def)

lemma Timeout_first_wake:
  "Timeout_step (TWake False) (setTimeout delayMs now, 0) =
     ((setTimeout delayMs now)\<lparr>tm_wait := None, tm_start := None, tm_executed := True\<rparr>, 1)"
  "Timeout_step (TWake False) (Timeout_destroy (setTimeout delayMs now), 0) =
     ((setTimeout delayMs now)\<lparr>tm_wait := None, tm_start := None, tm_destroyed := True\<rparr>, 0)"
  by (simp_all add: setTimeout_def Timeout_resume_def Timeout_destroy_def Let_def)

text \<open>
  C1: the duration handed to \<open>task.wait\<close> is not \<open>delayMs / 1000\<close> seconds. \<open>setTimeout\<close>
  converts with \<open>msToS\<close>, which multiplies by 1000: a timeout of 1000 ms waits 1000000
  seconds, not 1.
\<close>

theorem setTimeout_waits_thousandfold:
  "tm_wait (setTimeout 1000 0) = Some 1000000 \<and> tm_wait (setTimeout 1000 0) \<noteq> Some (1000 / 1000)"
  by (simp add: setTimeout_def msToS_def convert_def SECOND_def MILLI_def Let_def)

lemma Timeout_step_destroyed_idle:
  "tm_destroyed t \<Longrightarrow> \<not> tm_executed t \<Longrightarrow> Timeout_step e (t, 0) = (t', calls) \<Longrightarrow>
   tm_destroyed t' \<and> \<not> tm_executed t' \<and> calls = 0"
  by (cases e) (auto simp: Timeout_destroy_def Timeout_resume_def Let_def split: option.splits)

lemma Timeout_run_destroyed_idle:
  "tm_destroyed t \<Longrightarrow> \<not> tm_executed t \<Longrightarrow> Timeout_run evs (t, 0) = (t', calls) \<Longrightarrow>
   \<not> tm_executed t' \<and> calls = 0"
proof (induction evs arbitrary: t)
  case Nil
  then show ?case by (simp add: Timeout_run_def)
next
  case (Cons e evs)
  obtain t1 c1 where st: "Timeout_step e (t, 0) = (t1, c1)" by (cases "Timeout_step e (t, 0)")
  from Timeout_step_destroyed_idle [OF Cons.prems(1,2) st]
  have "tm_destroyed t1" "\<not> tm_executed t1" "c1 = 0" by simp_all
  moreover from Cons.prems(3) st have "Timeout_run evs (t1, c1) = (t', calls)"
    by (simp add: Timeout_run_def)
  ultimately show ?case using Cons.IH by blast
qed

lemma Timeout_run_no_wake:
  "\<forall>e \<in> set evs. \<not> isTWake e \<Longrightarrow>
   \<exists>t'. Timeout_run evs (t, calls) = (t', calls) \<and> tm_executed t' = tm_executed t"
proof (induction evs arbitrary: t)
  case Nil
  then show ?case by (simp add: Timeout_run_def)
next
  case (Cons e evs)
  then have e: "e = TDestroy" by (cases e) simp_all
  from Cons.prems have "\<forall>e \<in> set evs. \<not> isTWake e" by simp
  from Cons.IH [OF this, of "Timeout_destroy t"] e show ?case
    by (simp add: Timeout_run_def Timeout_destroy_def)
qed

lemma Timeout_run_append:
  "Timeout_run (xs @ ys) s = Timeout_run ys (Timeout_run xs s)"
  by (simp add: Timeout_run_def)

lemma Timeout_inv_step: "Timeout_inv s \<Longrightarrow> Timeout_inv (Timeout_step e s)"
  by (cases s; cases e)
    (auto simp: Timeout_inv_def Timeout_destroy_def Timeout_resume_def Let_def
      split: option.splits)

lemma Timeout_inv_run: "Timeout_inv s \<Longrightarrow> Timeout_inv (Timeout_run evs s)"
  unfolding Timeout_run_def by (induction evs arbitrary: s) (simp_all add: Timeout_inv_step)

lemma Timeout_inv_init: "Timeout_inv (setTimeout ms now, 0)"
  by (simp add: Timeout_inv_def setTimeout_def Let_def)

text \<open>
  C3: a \<open>destroy()\<close> that comes after the callback has run is not without effect. The
  timeout has \<open>executed\<close> set and \<open>destroyed\<close> clear when the callback has run, and the
  \<open>destroy()\<close> that follows sets \<open>destroyed\<close>: both flags are then true.
\<close>

theorem destroy_after_execution_sets_destroyed:
  "tm_executed (fst (Timeout_run [TWake False] (setTimeout 250 1700000000, 0))) \<and>
   \<not> tm_destroyed (fst (Timeout_run [TWake False] (setTimeout 250 1700000000, 0))) \<and>
   tm_executed (fst (Timeout_run [TWake False, TDestroy] (setTimeout 250 1700000000, 0))) \<and>
   tm_destroyed (fst (Timeout_run [TWake False, TDestroy] (setTimeout 250 1700000000, 0)))"
  by (simp add: Timeout_run_def setTimeout_def Timeout_resume_def Timeout_destroy_def Let_def)

text \<open>
  The part of the timeout's contract the code keeps: a \<open>destroy()\<close> that comes before the
  task is resumed keeps \<open>executed\<close> false and the callback uncalled for ever.
\<close>

lemma Timeout_destroy_before_wake:
  assumes nw: "\<forall>e \<in> set pre. \<not> isTWake e"
  shows "\<not> tm_executed (fst (Timeout_run (pre @ TDestroy # post) (setTimeout ms now, 0))) \<and>
         snd (Timeout_run (pre @ TDestroy # post) (setTimeout ms now, 0)) = 0"
proof -
  from Timeout_run_no_wake [OF nw, of "setTimeout ms now" 0]
  obtain t1 where r1: "Timeout_run pre (setTimeout ms now, 0) = (t1, 0)"
    and ex1: "tm_executed t1 = tm_executed (setTimeout ms now)" by blast
  have ne: "\<not> tm_executed (Timeout_destroy t1)" "tm_destroyed (Timeout_destroy t1)"
    using ex1 by (simp_all add: Timeout_destroy_def setTimeout_def Let_def)
  obtain t2 c2 where r2: "Timeout_run post (Timeout_destroy t1, 0) = (t2, c2)"
    by (cases "Timeout_run post (Timeout_destroy t1, 0)")
  from Timeout_run_destroyed_idle [OF ne(2) ne(1) r2] have "\<not> tm_executed t2 \<and> c2 = 0" .
  moreover have "Timeout_run (pre @ TDestroy # post) (setTimeout ms now, 0) = (t2, c2)"
    using r1 r2 by (simp add: Timeout_run_append) (simp add: Timeout_run_def)
  ultimately show ?thesis by simp
qed

section \<open>Theorems about \<open>setInterval\<close>\<close>

lemma setInterval_fields:
  "setInterval ms now =
     \<lparr>iv_timeout = ms / 1000, iv_destroyed = False, iv_latest = Some (ms / 1000, now),
      iv_wait = Some (ms / 1000)\<rparr>"
  by (simp add: setInterval_def Interval_cycle_def sToMs_def convert_def SECOND_def MILLI_def)

lemma Interval_apply_destroyed: "iv_destroyed iv \<Longrightarrow> iv_destroyed (Interval_apply h iv)"
  by (cases h) simp_all

lemma Interval_step_destroyed:
  "iv_destroyed iv \<Longrightarrow> Interval_step e (iv, calls) = (iv', calls') \<Longrightarrow>
   iv_destroyed iv' \<and> calls' = calls"
  by (cases e; cases "iv_wait iv")
    (auto simp: Interval_resume_def Let_def Interval_apply_destroyed)

lemma Interval_run_destroyed:
  "iv_destroyed iv \<Longrightarrow> snd (Interval_run evs (iv, calls)) = calls"
proof (induction evs arbitrary: iv)
  case Nil
  then show ?case by (simp add: Interval_run_def)
next
  case (Cons e evs)
  obtain iv1 c1 where st: "Interval_step e (iv, calls) = (iv1, c1)"
    by (cases "Interval_step e (iv, calls)")
  from Interval_step_destroyed [OF Cons.prems st] have "iv_destroyed iv1" "c1 = calls"
    by simp_all
  with Cons.IH [of iv1] st show ?case by (simp add: Interval_run_def)
qed

lemma Interval_run_no_wake:
  "\<forall>e \<in> set evs. \<not> isIWake e \<Longrightarrow> snd (Interval_run evs (iv, calls)) = calls"
proof (induction evs arbitrary: iv)
  case Nil
  then show ?case by (simp add: Interval_run_def)
next
  case (Cons e evs)
  then obtain h where e: "e = IOp h" by (cases e) simp_all
  from Cons.prems have "\<forall>e \<in> set evs. \<not> isIWake e" by simp
  from Cons.IH [OF this, of "Interval_apply h iv"] e show ?case
    by (simp add: Interval_run_def)
qed

lemma Interval_run_append:
  "Interval_run (xs @ ys) s = Interval_run ys (Interval_run xs s)"
  by (simp add: Interval_run_def)

text \<open>
  C5: once the \<open>destroyed\<close> flag of an interval is set, no sequence of events makes the
  callback run again, the resumption of a wait that was in flight included; and when
  \<open>destroy()\<close> comes before the first wait is over, the callback is never called,
  whatever the period.
\<close>

theorem Interval_destroyed_no_calls:
  "(iv_destroyed iv \<longrightarrow> snd (Interval_run evs (iv, calls)) = calls) \<and>
   ((\<forall>e \<in> set pre. \<not> isIWake e) \<longrightarrow>
      snd (Interval_run (pre @ IOp Destroy # post) (setInterval ms now, 0)) = 0)"
proof (intro conjI impI)
  assume "iv_destroyed iv"
  then show "snd (Interval_run evs (iv, calls)) = calls" by (rule Interval_run_destroyed)
next
  assume nw: "\<forall>e \<in> set pre. \<not> isIWake e"
  obtain iv1 c1 where r1: "Interval_run pre (setInterval ms now, 0) = (iv1, c1)"
    by (cases "Interval_run pre (setInterval ms now, 0)")
  from Interval_run_no_wake [OF nw, of "setInterval ms now" 0] r1 have c1: "c1 = 0" by simp
  have "Interval_run (pre @ IOp Destroy # post) (setInterval ms now, 0) =
          Interval_run post (iv1\<lparr>iv_destroyed := True\<rparr>, 0)"
    using r1 c1 by (simp add: Interval_run_append) (simp add: Interval_run_def)
  moreover have "snd (Interval_run post (iv1\<lparr>iv_destroyed := True\<rparr>, 0)) = 0"
    by (rule Interval_run_destroyed) simp
  ultimately show "snd (Interval_run (pre @ IOp Destroy # post) (setInterval ms now, 0)) = 0"
    by simp
qed

theorem Interval_destroyed_no_calls_witness:
  "iv_destroyed (fst (Interval_run [IWake [] 1, IOp Destroy] (setInterval 1000 0, 0))) \<and>
   snd (Interval_run [IWake [] 1, IOp Destroy] (setInterval 1000 0, 0)) = 1 \<and>
   snd (Interval_run [IWake [] 2, IWake [] 3]
          (fst (Interval_run [IWake [] 1, IOp Destroy] (setInterval 1000 0, 0)), 1)) = 1 \<and>
   \<not> isIWake (IOp (SetTimeout 5)) \<and>
   snd (Interval_run ([IOp (SetTimeout 5)] @ IOp Destroy # [IWake [] 1, IWake [] 2])
          (setInterval 1000 0, 0)) = 0"
proof -
  let ?iv = "fst (Interval_run [IWake [] 1, IOp Destroy] (setInterval 1000 0, 0))"
  have d: "iv_destroyed ?iv"
    by (simp add: Interval_run_def setInterval_def Interval_cycle_def Interval_resume_def
        Let_def)
  have c: "snd (Interval_run [IWake [] 1, IOp Destroy] (setInterval 1000 0, 0)) = 1"
    by (simp add: Interval_run_def setInterval_def Interval_cycle_def Interval_resume_def
        Let_def)
  have nw: "\<forall>e \<in> set [IOp (SetTimeout 5)]. \<not> isIWake e" by simp
  from Interval_destroyed_no_calls [where iv = ?iv and evs = "[IWake [] 2, IWake [] 3]"
      and calls = 1 and pre = "[IOp (SetTimeout 5)]" and post = "[IWake [] 1, IWake [] 2]"
      and ms = 1000 and now = 0] d c nw
  show ?thesis by simp
qed

text \<open>
  C6: \<open>setTimeout(ms)\<close> on an interval whose cycle is in flight leaves the period recorded
  for that cycle and the pending wait as they are; the cycle that starts when the task is
  resumed records and waits for the new period, \<open>ms / 1000\<close> seconds.
\<close>

theorem Interval_setTimeout_next_cycle:
  "iv_wait iv = Some x \<Longrightarrow> \<not> iv_destroyed iv \<Longrightarrow>
   (let iv' = Interval_apply (SetTimeout ms) iv in
      iv_latest iv' = iv_latest iv \<and> iv_wait iv' = Some x \<and>
      Interval_step (IWake [] now) (iv', calls) =
        (iv'\<lparr>iv_latest := Some (ms / 1000, now), iv_wait := Some (ms / 1000)\<rparr>, calls + 1))"
  by (simp add: Interval_resume_def Interval_cycle_def sToMs_def convert_def MILLI_def
      SECOND_def Let_def)

theorem Interval_setTimeout_next_cycle_witness:
  "iv_wait (setInterval 100 0) = Some (1 / 10) \<and> \<not> iv_destroyed (setInterval 100 0) \<and>
   iv_latest (Interval_apply (SetTimeout 10) (setInterval 100 0)) = Some (1 / 10, 0) \<and>
   iv_wait (Interval_apply (SetTimeout 10) (setInterval 100 0)) = Some (1 / 10) \<and>
   iv_wait (fst (Interval_step (IWake [] 7) (Interval_apply (SetTimeout 10) (setInterval 100 0), 0)))
     = Some (1 / 100)"
proof -
  have w: "iv_wait (setInterval 100 0) = Some (1 / 10)"
    and l: "iv_latest (setInterval 100 0) = Some (1 / 10, 0)"
    and d: "\<not> iv_destroyed (setInterval 100 0)"
    by (simp_all add: setInterval_def Interval_cycle_def sToMs_def convert_def MILLI_def
        SECOND_def)
  from Interval_setTimeout_next_cycle [OF w d, of 10 7 0] w l d
  show ?thesis by (simp add: Let_def)
qed

section \<open>Theorems about \<open>Debounce\<close>\<close>

lemma scheduleTwice_invoked:
  assumes "t1 \<le> t2" "t2 < t1 + 1000 * d" "t2 + 1000 * d \<le> T"
  shows "invoked (scheduleTwice d t1 t2 T x y) = [(t2 + 1000 * d, y)]"
  using assms
  by (simp add: scheduleTwice_def advance_def Debounce_schedule_def Debounce_clear_def
      Debounce_flush_def wake_def new_World_def new_Debounce_def setTimeout_def
      Timeout_resume_def Timeout_destroy_def msToS_def convert_def SECOND_def MILLI_def Let_def
      max_def)

lemma scheduleTwice_silent:
  assumes "t1 \<le> t2" "t2 < t1 + 1000 * d" "T < t2 + 1000 * d"
  shows "invoked (scheduleTwice d t1 t2 T x y) = []"
  using assms
  by (auto simp add: scheduleTwice_def advance_def Debounce_schedule_def Debounce_clear_def
      Debounce_flush_def wake_def new_World_def new_Debounce_def setTimeout_def
      Timeout_resume_def Timeout_destroy_def msToS_def convert_def SECOND_def MILLI_def Let_def
      max_def)

text \<open>
  C4: two calls of \<open>schedule\<close> half a second apart on a debounce of 1000 ms do lead to one
  call of the callback, with the second argument, but not 1000 ms after the second call:
  two seconds in, nothing has been called; the call comes 1000000 seconds after the second
  \<open>schedule\<close>.
\<close>

theorem debounce_fires_late:
  "invoked (scheduleTwice 1000 0 (1 / 2) 2 ''a'' ''b'') = [] \<and>
   invoked (scheduleTwice 1000 0 (1 / 2) (1000000 + 1 / 2) ''a'' ''b'') = [(1000000 + 1 / 2, ''b'')]"
  by (simp add: scheduleTwice_def advance_def Debounce_schedule_def Debounce_clear_def
      Debounce_flush_def wake_def new_World_def new_Debounce_def setTimeout_def
      Timeout_resume_def Timeout_destroy_def msToS_def convert_def SECOND_def MILLI_def Let_def)

end
